theory Spec2Isabelle
  imports Complex_Main
begin

section \<open>Strings and numbers of the source language\<close>

text \<open>
  A JavaScript string is a sequence of UTF-16 code units; the regular expressions of the
  tokenizer carry neither the \<open>u\<close> nor the \<open>i\<close> flag, so they work on code units. A code
  unit is modelled as its numeric value. Numbers are modelled as exact rationals
  (\<open>rat\<close>) and as \<open>int\<close> where the source only produces integers; \<open>NaN\<close> and the
  infinities are outside the model.
\<close>

type_synonym jschar = nat
type_synonym jsstring = "jschar list"

definition str :: "string \<Rightarrow> jsstring" where
  "str s = map of_char s"

text \<open>The character class \<open>[a-zA-Z0-9]\<close>.\<close>

definition isAlnum :: "jschar \<Rightarrow> bool" where
  "isAlnum c = ((97 \<le> c \<and> c \<le> 122) \<or> (65 \<le> c \<and> c \<le> 90) \<or> (48 \<le> c \<and> c \<le> 57))"

text \<open>
  The class \<open>\s\<close>, which is also what \<open>trim\<close> strips: TAB, LF, VT, FF, CR, SPACE, NBSP,
  U+1680, U+2000 to U+200A, U+2028, U+2029, U+202F, U+205F, U+3000, U+FEFF.
\<close>

definition isSpace :: "jschar \<Rightarrow> bool" where
  "isSpace c = ((9 \<le> c \<and> c \<le> 13) \<or> c = 32 \<or> c = 160 \<or> c = 5760 \<or> (8192 \<le> c \<and> c \<le> 8202)
      \<or> c = 8232 \<or> c = 8233 \<or> c = 8239 \<or> c = 8287 \<or> c = 12288 \<or> c = 65279)"

text \<open>\<open>Math.round\<close>: the nearest integer, a tie going up.\<close>

definition mathRound :: "rat \<Rightarrow> int" where
  "mathRound x = \<lfloor>x + 1 / 2\<rfloor>"

section \<open>Tokenizer engine\<close>

datatype punctuation = PunctNone | Minor | Major | Terminal

record flags =
  isParagraphStart :: bool
  isParagraphEnd :: bool
  punct :: punctuation
  isLongWord :: bool
  isNumeric :: bool
  isAbbreviation :: bool

record token =
  word :: jsstring
  orpIndex :: nat
  baseDurationMs :: int
  tflags :: flags

datatype mode = Reading | Skim

text \<open>\<open>TERMINAL_PUNCT\<close>, \<open>MAJOR_PUNCT\<close> and \<open>MINOR_PUNCT\<close>: the classes inside the brackets.\<close>

definition terminalChar :: "jschar \<Rightarrow> bool" where
  "terminalChar c = (c = 46 \<or> c = 33 \<or> c = 63 \<or> c = 8230)"

definition majorChar :: "jschar \<Rightarrow> bool" where
  "majorChar c = (c = 58 \<or> c = 59 \<or> c = 8212 \<or> c = 8211)"

definition minorChar :: "jschar \<Rightarrow> bool" where
  "minorChar c = (c = 44 \<or> c = 40 \<or> c = 41 \<or> c = 39 \<or> c = 34 \<or> c = 45)"

text \<open>\<open>/[cls]+$/.test(w)\<close>: a non-empty run of the class reaches the end of the string.\<close>

definition endsWithRun :: "(jschar \<Rightarrow> bool) \<Rightarrow> jsstring \<Rightarrow> bool" where
  "endsWithRun cls w = (takeWhile cls (rev w) \<noteq> [])"

text \<open>\<open>ABBREVIATION_PATTERN = /^([A-Z]\.)+$/\<close>.\<close>

fun abbreviationPattern :: "jsstring \<Rightarrow> bool" where
  "abbreviationPattern (a # d # rest) =
     (65 \<le> a \<and> a \<le> 90 \<and> d = 46 \<and> (rest = [] \<or> abbreviationPattern rest))"
| "abbreviationPattern _ = False"

text \<open>\<open>NUMERIC_PATTERN = /^[\d,.$%]+$/\<close>.\<close>

definition numericChar :: "jschar \<Rightarrow> bool" where
  "numericChar c = ((48 \<le> c \<and> c \<le> 57) \<or> c = 44 \<or> c = 46 \<or> c = 36 \<or> c = 37)"

definition numericPattern :: "jsstring \<Rightarrow> bool" where
  "numericPattern w = (w \<noteq> [] \<and> list_all numericChar w)"

definition LONG_WORD_THRESHOLD :: nat where
  "LONG_WORD_THRESHOLD = 8"

text \<open>\<open>word.replace(/[^a-zA-Z0-9]/g, '')\<close>.\<close>

definition stripNonAlnum :: "jsstring \<Rightarrow> jsstring" where
  "stripNonAlnum w = filter isAlnum w"

definition calculateORP :: "jsstring \<Rightarrow> nat" where
  "calculateORP w =
     (let len = length (stripNonAlnum w) in
      if len \<le> 1 then 0
      else if len \<le> 3 then 0
      else if len \<le> 5 then 1
      else if len \<le> 9 then 2
      else if len \<le> 13 then 3
      else 4)"

text \<open>
  The mapping loop of \<open>findORPInWord\<close>: \<open>cs\<close> is what is left of the word from index \<open>i\<close>
  on, \<open>cleanIndex\<close> counts the alphanumeric characters passed. \<open>None\<close> is the loop running
  to the end without returning.
\<close>

fun orpLoop :: "jsstring \<Rightarrow> nat \<Rightarrow> nat \<Rightarrow> nat \<Rightarrow> nat option" where
  "orpLoop [] i cleanIndex orpInClean = None"
| "orpLoop (c # cs) i cleanIndex orpInClean =
     (if isAlnum c then
        (if cleanIndex = orpInClean then Some i
         else orpLoop cs (i + 1) (cleanIndex + 1) orpInClean)
      else orpLoop cs (i + 1) cleanIndex orpInClean)"

definition findORPInWord :: "jsstring \<Rightarrow> nat" where
  "findORPInWord w =
     (let leadingOffset = length (takeWhile (\<lambda>c. \<not> isAlnum c) w);
          cleanWord = stripNonAlnum (drop leadingOffset w);
          orpInClean = calculateORP cleanWord
      in case orpLoop (drop leadingOffset w) leadingOffset 0 orpInClean of
           Some i \<Rightarrow> i
         | None \<Rightarrow> leadingOffset)"

definition classifyPunctuation :: "jsstring \<Rightarrow> punctuation" where
  "classifyPunctuation w =
     (if endsWithRun terminalChar w then Terminal
      else if endsWithRun majorChar w then Major
      else if endsWithRun minorChar w then Minor
      else PunctNone)"

definition createFlags :: "jsstring \<Rightarrow> bool \<Rightarrow> bool \<Rightarrow> flags" where
  "createFlags w pStart pEnd =
     (let cleanWord = stripNonAlnum w in
      \<lparr> isParagraphStart = pStart,
        isParagraphEnd = pEnd,
        punct = classifyPunctuation w,
        isLongWord = (length cleanWord > LONG_WORD_THRESHOLD),
        isNumeric = numericPattern w,
        isAbbreviation = abbreviationPattern w \<rparr>)"

record timing_config =
  longWordMultiplier :: rat
  minorPunctMultiplier :: rat
  majorPunctMultiplier :: rat
  terminalPunctMultiplier :: rat
  paragraphEndMultiplier :: rat
  paragraphStartMultiplier :: rat
  abbreviationMultiplier :: rat
  numericMultiplier :: rat

definition TIMING_CONFIGS :: "mode \<Rightarrow> timing_config" where
  "TIMING_CONFIGS m =
     (case m of
        Reading \<Rightarrow>
          \<lparr> longWordMultiplier = 12 / 10,
            minorPunctMultiplier = 13 / 10,
            majorPunctMultiplier = 16 / 10,
            terminalPunctMultiplier = 2,
            paragraphEndMultiplier = 25 / 10,
            paragraphStartMultiplier = 13 / 10,
            abbreviationMultiplier = 14 / 10,
            numericMultiplier = 13 / 10 \<rparr>
      | Skim \<Rightarrow>
          \<lparr> longWordMultiplier = 1,
            minorPunctMultiplier = 11 / 10,
            majorPunctMultiplier = 12 / 10,
            terminalPunctMultiplier = 14 / 10,
            paragraphEndMultiplier = 16 / 10,
            paragraphStartMultiplier = 11 / 10,
            abbreviationMultiplier = 11 / 10,
            numericMultiplier = 11 / 10 \<rparr>)"

definition BASE_MS :: rat where
  "BASE_MS = 300"

text \<open>
  The running product of \<open>calculateBaseDuration\<close>, in the order of the source's
  statements.
\<close>

definition durationMultiplier :: "flags \<Rightarrow> mode \<Rightarrow> rat" where
  "durationMultiplier f m =
     (let config = TIMING_CONFIGS m;
          m0 = 1;
          m1 = (if isLongWord f then m0 * longWordMultiplier config else m0);
          m2 = (if isAbbreviation f then m1 * abbreviationMultiplier config else m1);
          m3 = (if isNumeric f then m2 * numericMultiplier config else m2);
          m4 = (case punct f of
                  Minor \<Rightarrow> m3 * minorPunctMultiplier config
                | Major \<Rightarrow> m3 * majorPunctMultiplier config
                | Terminal \<Rightarrow> m3 * terminalPunctMultiplier config
                | PunctNone \<Rightarrow> m3);
          m5 = (if isParagraphEnd f then m4 * paragraphEndMultiplier config else m4);
          m6 = (if isParagraphStart f then m5 * paragraphStartMultiplier config else m5)
      in m6)"

definition calculateBaseDuration :: "flags \<Rightarrow> mode \<Rightarrow> int" where
  "calculateBaseDuration f m = mathRound (BASE_MS * durationMultiplier f m)"

subsection \<open>Segmentation\<close>

text \<open>\<open>.replace(/\r\n/g, '\n')\<close> and \<open>.replace(/\r/g, '\n')\<close>.\<close>

fun replaceCRLF :: "jsstring \<Rightarrow> jsstring" where
  "replaceCRLF (c # d # cs) =
     (if c = 13 \<and> d = 10 then 10 # replaceCRLF cs else c # replaceCRLF (d # cs))"
| "replaceCRLF cs = cs"

definition replaceCR :: "jsstring \<Rightarrow> jsstring" where
  "replaceCR s = map (\<lambda>c. if c = 13 then 10 else c) s"

text \<open>
  The rest \<open>\s*\n\<close> of the separator \<open>/\n\s*\n/\<close>, matched at the head of \<open>cs\<close>: the greedy
  \<open>\s*\<close> backs off to the last line feed of the white-space run. The result is the number
  of code units matched.
\<close>

definition blankTail :: "jsstring \<Rightarrow> nat option" where
  "blankTail cs =
     (let ws = takeWhile isSpace cs in
      if 10 \<in> set ws then Some (length ws - length (takeWhile (\<lambda>c. c \<noteq> 10) (rev ws)))
      else None)"

text \<open>
  \<open>.split(/\n\s*\n/)\<close>: \<open>cur\<close> is the piece being read, reversed. The separator never
  matches the empty string, so the scan moves on after every match.
\<close>

function splitBlankLines :: "jsstring \<Rightarrow> jsstring \<Rightarrow> jsstring list" where
  "splitBlankLines cur [] = [rev cur]"
| "splitBlankLines cur (c # cs) =
     (if c = 10 then
        (case blankTail cs of
           Some n \<Rightarrow> rev cur # splitBlankLines [] (drop n cs)
         | None \<Rightarrow> splitBlankLines (c # cur) cs)
      else splitBlankLines (c # cur) cs)"
  by pat_completeness auto
termination
  by (relation "measure (\<lambda>(cur, s). length s)") auto

definition trim :: "jsstring \<Rightarrow> jsstring" where
  "trim s = rev (dropWhile isSpace (rev (dropWhile isSpace s)))"

definition splitIntoParagraphs :: "jsstring \<Rightarrow> jsstring list" where
  "splitIntoParagraphs text =
     filter (\<lambda>p. length p > 0)
       (map trim (splitBlankLines [] (replaceCR (replaceCRLF text))))"

text \<open>\<open>.replace(/\s+/g, ' ')\<close>.\<close>

function collapseSpaces :: "jsstring \<Rightarrow> jsstring" where
  "collapseSpaces [] = []"
| "collapseSpaces (c # cs) =
     (if isSpace c then 32 # collapseSpaces (dropWhile isSpace cs)
      else c # collapseSpaces cs)"
  by pat_completeness auto
termination
  by (relation "measure length") (auto simp: length_dropWhile_le less_Suc_eq_le)

text \<open>\<open>.split(' ')\<close>.\<close>

fun splitOnSpace :: "jsstring \<Rightarrow> jsstring \<Rightarrow> jsstring list" where
  "splitOnSpace cur [] = [rev cur]"
| "splitOnSpace cur (c # cs) =
     (if c = 32 then rev cur # splitOnSpace [] cs else splitOnSpace (c # cur) cs)"

definition splitIntoWords :: "jsstring \<Rightarrow> jsstring list" where
  "splitIntoWords paragraph =
     (let normalized = trim (collapseSpaces paragraph)
      in filter (\<lambda>w. length w > 0) (splitOnSpace [] normalized))"

text \<open>The body of the inner loop of \<open>tokenize\<close>, for the word at index \<open>wIdx\<close>.\<close>

definition makeToken :: "mode \<Rightarrow> jsstring list \<Rightarrow> nat \<Rightarrow> token" where
  "makeToken m ws wIdx =
     (let w = ws ! wIdx;
          pStart = (wIdx = 0);
          pEnd = (int wIdx = int (length ws) - 1);
          f = createFlags w pStart pEnd
      in \<lparr> word = w,
           orpIndex = findORPInWord w,
           baseDurationMs = calculateBaseDuration f m,
           tflags = f \<rparr>)"

definition tokenizeParagraph :: "mode \<Rightarrow> jsstring \<Rightarrow> token list" where
  "tokenizeParagraph m paragraph =
     (let ws = splitIntoWords paragraph in map (makeToken m ws) [0..<length ws])"

definition tokenize :: "jsstring \<Rightarrow> mode \<Rightarrow> token list" where
  "tokenize text m = concat (map (tokenizeParagraph m) (splitIntoParagraphs text))"

text \<open>\<open>getDisplayDuration(token, wpm)\<close>, for a rate \<open>wpm > 0\<close>.\<close>

definition BASE_WPM :: rat where
  "BASE_WPM = 200"

definition getDisplayDuration :: "token \<Rightarrow> rat \<Rightarrow> int" where
  "getDisplayDuration t wpm = mathRound (of_int (baseDurationMs t) * (BASE_WPM / wpm))"

section \<open>Playback controller\<close>

datatype js_error = TypeError

record playback_state =
  psIsPlaying :: bool
  psCurrentIndex :: int
  psWpm :: rat
  psMode :: mode

text \<open>The four observer callbacks, as the calls the controller makes to them.\<close>

datatype event =
    OnTick token int
  | OnComplete
  | OnStateChange playback_state
  | OnProgress rat

text \<open>
  The fields of \<open>PlaybackController\<close>. \<open>rafNext\<close> is the host's side of
  \<open>requestAnimationFrame\<close>: the next handle it hands out (handles are positive, so a stored
  handle is truthy). When the host runs a requested callback is its own choice; a cancelled
  callback is one it never runs. \<open>emitted\<close> is the trace of observer calls in the order
  they are made, each with \<open>tokens.length\<close> at the moment of the call.
\<close>

record controller =
  tokens :: "token list"
  currentIndex :: int
  isPlaying :: bool
  wpm :: rat
  cmode :: mode
  rafId :: "nat option"
  lastTimestamp :: "rat option"
  accumulatedTime :: rat
  currentTokenDuration :: int
  wasPlayingBeforeHidden :: bool
  rafNext :: nat
  emitted :: "(event \<times> nat) list"

definition newController :: controller where
  "newController =
     \<lparr> tokens = [], currentIndex = 0, isPlaying = False, wpm = 300, cmode = Reading,
       rafId = None, lastTimestamp = None, accumulatedTime = 0, currentTokenDuration = 0,
       wasPlayingBeforeHidden = False, rafNext = 1, emitted = [] \<rparr>"

text \<open>\<open>this.tokens[i]\<close>: \<open>None\<close> is \<open>undefined\<close>.\<close>

definition tokenAt :: "token list \<Rightarrow> int \<Rightarrow> token option" where
  "tokenAt ts i = (if 0 \<le> i \<and> i < int (length ts) then Some (ts ! nat i) else None)"

definition emit :: "event \<Rightarrow> controller \<Rightarrow> controller" where
  "emit e s = s\<lparr>emitted := emitted s @ [(e, length (tokens s))]\<rparr>"

definition emitTick :: "controller \<Rightarrow> controller" where
  "emitTick s =
     (case tokenAt (tokens s) (currentIndex s) of
        Some t \<Rightarrow> emit (OnTick t (currentIndex s)) s
      | None \<Rightarrow> s)"

definition emitProgress :: "controller \<Rightarrow> controller" where
  "emitProgress s =
     (let percent = (if length (tokens s) > 0
                     then (of_int (currentIndex s) / of_nat (length (tokens s))) * 100
                     else 0)
      in emit (OnProgress percent) s)"

definition getState :: "controller \<Rightarrow> playback_state" where
  "getState s =
     \<lparr> psIsPlaying = isPlaying s, psCurrentIndex = currentIndex s,
       psWpm = wpm s, psMode = cmode s \<rparr>"

definition emitStateChange :: "controller \<Rightarrow> controller" where
  "emitStateChange s = emit (OnStateChange (getState s)) s"

definition requestAnimationFrame :: "controller \<Rightarrow> controller" where
  "requestAnimationFrame s =
     s\<lparr>rafId := Some (rafNext s), rafNext := rafNext s + 1\<rparr>"

definition pause :: "controller \<Rightarrow> controller" where
  "pause s =
     (let s1 = s\<lparr>isPlaying := False\<rparr>;
          s2 = (case rafId s1 of
                  Some h \<Rightarrow> s1\<lparr>rafId := None\<rparr>
                | None \<Rightarrow> s1)
      in emitStateChange (s2\<lparr>lastTimestamp := None\<rparr>))"

definition stop :: "controller \<Rightarrow> controller" where
  "stop s = emitStateChange ((pause s)\<lparr>currentIndex := 0, accumulatedTime := 0\<rparr>)"

definition load :: "token list \<Rightarrow> int \<Rightarrow> controller \<Rightarrow> controller" where
  "load ts startIndex s =
     (let s1 = (stop s)\<lparr>tokens := ts\<rparr>;
          s2 = s1\<lparr>currentIndex := max 0 (min startIndex (int (length ts) - 1))\<rparr>
      in emitStateChange (emitTick s2))"

definition setWPM :: "rat \<Rightarrow> controller \<Rightarrow> controller" where
  "setWPM w s =
     (let s1 = s\<lparr>wpm := max 50 (min 2000 w)\<rparr>;
          s2 = (if isPlaying s1 then
                  (case tokenAt (tokens s1) (currentIndex s1) of
                     Some t \<Rightarrow> s1\<lparr>currentTokenDuration := getDisplayDuration t (wpm s1)\<rparr>
                   | None \<Rightarrow> s1)
                else s1)
      in emitStateChange s2)"

definition adjustWPM :: "rat \<Rightarrow> controller \<Rightarrow> controller" where
  "adjustWPM delta s = setWPM (wpm s + delta) s"

definition setMode :: "mode \<Rightarrow> controller \<Rightarrow> controller" where
  "setMode m s = emitStateChange (s\<lparr>cmode := m\<rparr>)"

text \<open>
  \<open>play\<close> reads \<open>this.tokens[this.currentIndex].baseDurationMs\<close>: on \<open>undefined\<close> that is a
  \<open>TypeError\<close>.
\<close>

definition play :: "controller \<Rightarrow> js_error + controller" where
  "play s =
     (if length (tokens s) = 0 then Inr s
      else
        let s1 = (if currentIndex s \<ge> int (length (tokens s)) - 1
                  then s\<lparr>currentIndex := 0\<rparr> else s);
            s2 = s1\<lparr>isPlaying := True, accumulatedTime := 0, lastTimestamp := None\<rparr>
        in case tokenAt (tokens s2) (currentIndex s2) of
             None \<Rightarrow> Inl TypeError
           | Some t \<Rightarrow>
               Inr (emitStateChange (requestAnimationFrame
                      (s2\<lparr>currentTokenDuration := getDisplayDuration t (wpm s2)\<rparr>))))"

definition toggle :: "controller \<Rightarrow> js_error + controller" where
  "toggle s = (if isPlaying s then Inr (pause s) else play s)"

definition step :: "int \<Rightarrow> controller \<Rightarrow> controller" where
  "step delta s =
     (let wasPlaying = isPlaying s;
          s1 = (if wasPlaying then pause s else s);
          s2 = s1\<lparr>currentIndex :=
                    max 0 (min (currentIndex s1 + delta) (int (length (tokens s1)) - 1))\<rparr>;
          s3 = s2\<lparr>accumulatedTime := 0\<rparr>
      in emitStateChange (emitProgress (emitTick s3)))"

definition seek :: "int \<Rightarrow> controller \<Rightarrow> js_error + controller" where
  "seek index s =
     (let wasPlaying = isPlaying s;
          s1 = (if wasPlaying then pause s else s);
          s2 = s1\<lparr>currentIndex := max 0 (min index (int (length (tokens s1)) - 1))\<rparr>;
          s3 = s2\<lparr>accumulatedTime := 0\<rparr>;
          s4 = emitProgress (emitTick s3)
      in if wasPlaying then play s4 else Inr (emitStateChange s4))"

definition seekPercent :: "rat \<Rightarrow> controller \<Rightarrow> js_error + controller" where
  "seekPercent percent s = seek \<lfloor>(percent / 100) * of_nat (length (tokens s))\<rfloor> s"

definition rewind :: "int \<Rightarrow> controller \<Rightarrow> controller" where
  "rewind n s = step (- n) s"

text \<open>The elapsed time a tick at \<open>timestamp\<close> adds to the accumulator.\<close>

definition deltaTime :: "rat \<Rightarrow> controller \<Rightarrow> rat" where
  "deltaTime timestamp s =
     timestamp - (case lastTimestamp s of None \<Rightarrow> timestamp | Some l \<Rightarrow> l)"

definition tick :: "rat \<Rightarrow> controller \<Rightarrow> js_error + controller" where
  "tick timestamp s =
     (if \<not> isPlaying s then Inr s
      else
        let s1 = s\<lparr>lastTimestamp := Some timestamp,
                   accumulatedTime := accumulatedTime s + deltaTime timestamp s\<rparr>
        in if accumulatedTime s1 \<ge> of_int (currentTokenDuration s1) then
             (let s2 = s1\<lparr>accumulatedTime :=
                            accumulatedTime s1 - of_int (currentTokenDuration s1),
                          currentIndex := currentIndex s1 + 1\<rparr>
              in if currentIndex s2 \<ge> int (length (tokens s2)) then
                   Inr (emit OnComplete
                          (pause (s2\<lparr>currentIndex := int (length (tokens s2)) - 1\<rparr>)))
                 else
                   (case tokenAt (tokens s2) (currentIndex s2) of
                      None \<Rightarrow> Inl TypeError
                    | Some t \<Rightarrow>
                        Inr (requestAnimationFrame (emitProgress (emitTick
                               (s2\<lparr>currentTokenDuration :=
                                     getDisplayDuration t (wpm s2)\<rparr>))))))
           else Inr (requestAnimationFrame s1))"

text \<open>\<open>handleVisibilityChange\<close>, with \<open>document.hidden\<close> as its argument.\<close>

definition handleVisibilityChange :: "bool \<Rightarrow> controller \<Rightarrow> controller" where
  "handleVisibilityChange hidden s =
     (if hidden then
        (let s1 = s\<lparr>wasPlayingBeforeHidden := isPlaying s\<rparr>
         in if isPlaying s1 then pause s1 else s1)
      else s\<lparr>lastTimestamp := None, accumulatedTime := 0\<rparr>)"

definition handleFreeze :: "controller \<Rightarrow> controller" where
  "handleFreeze s = pause (s\<lparr>wasPlayingBeforeHidden := isPlaying s\<rparr>)"

definition handleResume :: "controller \<Rightarrow> controller" where
  "handleResume s = s\<lparr>lastTimestamp := None, accumulatedTime := 0\<rparr>"

text \<open>\<open>destroy\<close> pauses and unsubscribes from the host's visibility signal.\<close>

definition destroy :: "controller \<Rightarrow> controller" where
  "destroy s = pause s"

text \<open>
  The calls a host and a user can make on a controller, and a run of such calls from
  left to right; an exception ends the run.
\<close>

datatype operation =
    Load "token list" int
  | SetWPM rat
  | AdjustWPM rat
  | SetMode mode
  | Play
  | Pause
  | Stop
  | Toggle
  | Step int
  | Seek int
  | SeekPercent rat
  | Rewind int
  | Tick rat
  | VisibilityChange bool
  | Freeze
  | Resume
  | Destroy

fun perform :: "operation \<Rightarrow> controller \<Rightarrow> js_error + controller" where
  "perform (Load ts i) s = Inr (load ts i s)"
| "perform (SetWPM w) s = Inr (setWPM w s)"
| "perform (AdjustWPM d) s = Inr (adjustWPM d s)"
| "perform (SetMode m) s = Inr (setMode m s)"
| "perform Play s = play s"
| "perform Pause s = Inr (pause s)"
| "perform Stop s = Inr (stop s)"
| "perform Toggle s = toggle s"
| "perform (Step d) s = Inr (step d s)"
| "perform (Seek i) s = seek i s"
| "perform (SeekPercent p) s = seekPercent p s"
| "perform (Rewind n) s = Inr (rewind n s)"
| "perform (Tick t) s = tick t s"
| "perform (VisibilityChange h) s = Inr (handleVisibilityChange h s)"
| "perform Freeze s = Inr (handleFreeze s)"
| "perform Resume s = Inr (handleResume s)"
| "perform Destroy s = Inr (destroy s)"

fun run :: "operation list \<Rightarrow> controller \<Rightarrow> js_error + controller" where
  "run [] s = Inr s"
| "run (x # xs) s = (case perform x s of Inl e \<Rightarrow> Inl e | Inr s' \<Rightarrow> run xs s')"

section \<open>Specification-level notions\<close>

text \<open>A token with the given text and base duration and no flag set, for concrete runs.\<close>

definition plainToken :: "jsstring \<Rightarrow> int \<Rightarrow> token" where
  "plainToken w d =
     \<lparr> word = w, orpIndex = findORPInWord w, baseDurationMs = d,
       tflags = \<lparr> isParagraphStart = False, isParagraphEnd = False, punct = PunctNone,
                  isLongWord = False, isNumeric = False, isAbbreviation = False \<rparr> \<rparr>"

text \<open>
  The base duration in the words of the specification: the reference duration 300 times
  the product of all the multipliers that apply, in the fixed order long word,
  abbreviation, numeric, punctuation class, paragraph end, paragraph start; rounded to the
  nearest integer, minimum 1.
\<close>

definition applicableMultipliers :: "flags \<Rightarrow> mode \<Rightarrow> rat list" where
  "applicableMultipliers f m =
     (if isLongWord f then [longWordMultiplier (TIMING_CONFIGS m)] else []) @
     (if isAbbreviation f then [abbreviationMultiplier (TIMING_CONFIGS m)] else []) @
     (if isNumeric f then [numericMultiplier (TIMING_CONFIGS m)] else []) @
     (case punct f of
        PunctNone \<Rightarrow> []
      | Minor \<Rightarrow> [minorPunctMultiplier (TIMING_CONFIGS m)]
      | Major \<Rightarrow> [majorPunctMultiplier (TIMING_CONFIGS m)]
      | Terminal \<Rightarrow> [terminalPunctMultiplier (TIMING_CONFIGS m)]) @
     (if isParagraphEnd f then [paragraphEndMultiplier (TIMING_CONFIGS m)] else []) @
     (if isParagraphStart f then [paragraphStartMultiplier (TIMING_CONFIGS m)] else [])"

definition baseDurationSpec :: "flags \<Rightarrow> mode \<Rightarrow> int" where
  "baseDurationSpec f m = max 1 (mathRound (300 * prod_list (applicableMultipliers f m)))"

text \<open>
  The two duration functions once more, with the rounding of double arithmetic made
  explicit: \<open>fl\<close> is applied to every constant of the table and to the result of every
  multiplication and division. With \<open>fl\<close> the identity they are the functions above.
\<close>

definition roundConfig :: "(rat \<Rightarrow> rat) \<Rightarrow> timing_config \<Rightarrow> timing_config" where
  "roundConfig fl c =
     \<lparr> longWordMultiplier = fl (longWordMultiplier c),
       minorPunctMultiplier = fl (minorPunctMultiplier c),
       majorPunctMultiplier = fl (majorPunctMultiplier c),
       terminalPunctMultiplier = fl (terminalPunctMultiplier c),
       paragraphEndMultiplier = fl (paragraphEndMultiplier c),
       paragraphStartMultiplier = fl (paragraphStartMultiplier c),
       abbreviationMultiplier = fl (abbreviationMultiplier c),
       numericMultiplier = fl (numericMultiplier c) \<rparr>"

definition durationMultiplierFl :: "(rat \<Rightarrow> rat) \<Rightarrow> flags \<Rightarrow> mode \<Rightarrow> rat" where
  "durationMultiplierFl fl f m =
     (let config = roundConfig fl (TIMING_CONFIGS m);
          m0 = 1;
          m1 = (if isLongWord f then fl (m0 * longWordMultiplier config) else m0);
          m2 = (if isAbbreviation f then fl (m1 * abbreviationMultiplier config) else m1);
          m3 = (if isNumeric f then fl (m2 * numericMultiplier config) else m2);
          m4 = (case punct f of
                  Minor \<Rightarrow> fl (m3 * minorPunctMultiplier config)
                | Major \<Rightarrow> fl (m3 * majorPunctMultiplier config)
                | Terminal \<Rightarrow> fl (m3 * terminalPunctMultiplier config)
                | PunctNone \<Rightarrow> m3);
          m5 = (if isParagraphEnd f then fl (m4 * paragraphEndMultiplier config) else m4);
          m6 = (if isParagraphStart f then fl (m5 * paragraphStartMultiplier config) else m5)
      in m6)"

definition calculateBaseDurationFl :: "(rat \<Rightarrow> rat) \<Rightarrow> flags \<Rightarrow> mode \<Rightarrow> int" where
  "calculateBaseDurationFl fl f m = mathRound (fl (BASE_MS * durationMultiplierFl fl f m))"

definition getDisplayDurationFl :: "(rat \<Rightarrow> rat) \<Rightarrow> token \<Rightarrow> rat \<Rightarrow> int" where
  "getDisplayDurationFl fl t rate =
     mathRound (fl (of_int (baseDurationMs t) * fl (BASE_WPM / rate)))"

text \<open>
  The states a controller can be in: the position is an index of the sequence (0 when the
  sequence is empty), and a running controller has a token to show.
\<close>

definition wellFormed :: "controller \<Rightarrow> bool" where
  "wellFormed s =
     (0 \<le> currentIndex s \<and> currentIndex s \<le> max 0 (int (length (tokens s)) - 1) \<and>
      (isPlaying s \<longrightarrow> tokens s \<noteq> []))"

text \<open>The position an observer call carries, if it carries one.\<close>

fun eventPosition :: "event \<Rightarrow> int option" where
  "eventPosition (OnTick t i) = Some i"
| "eventPosition (OnStateChange ps) = Some (psCurrentIndex ps)"
| "eventPosition OnComplete = None"
| "eventPosition (OnProgress p) = None"

definition positionValid :: "event \<times> nat \<Rightarrow> bool" where
  "positionValid n =
     (case eventPosition (fst n) of
        None \<Rightarrow> True
      | Some p \<Rightarrow> 0 \<le> p \<and> p \<le> max 0 (int (snd n) - 1))"

definition notificationsValid :: "controller \<Rightarrow> bool" where
  "notificationsValid s = list_all positionValid (emitted s)"

definition consistent :: "controller \<Rightarrow> bool" where
  "consistent s = (wellFormed s \<and> notificationsValid s)"

section \<open>Duration model\<close>

lemma multipliers_ge_one:
  "1 \<le> longWordMultiplier (TIMING_CONFIGS m)" "1 \<le> minorPunctMultiplier (TIMING_CONFIGS m)"
  "1 \<le> majorPunctMultiplier (TIMING_CONFIGS m)" "1 \<le> terminalPunctMultiplier (TIMING_CONFIGS m)"
  "1 \<le> paragraphEndMultiplier (TIMING_CONFIGS m)" "1 \<le> paragraphStartMultiplier (TIMING_CONFIGS m)"
  "1 \<le> abbreviationMultiplier (TIMING_CONFIGS m)" "1 \<le> numericMultiplier (TIMING_CONFIGS m)"
  by (cases m; simp add: TIMING_CONFIGS_def)+

lemma prod_list_ge_one: "(\<And>x. x \<in> set xs \<Longrightarrow> (1::rat) \<le> x) \<Longrightarrow> 1 \<le> prod_list xs"
proof (induction xs)
  case Nil
  then show ?case by simp
next
  case (Cons a xs)
  have "1 \<le> a" using Cons.prems by simp
  moreover have "1 \<le> prod_list xs" using Cons by simp
  ultimately have "1 * 1 \<le> a * prod_list xs" by (intro mult_mono) simp_all
  then show ?case by simp
qed

lemma applicableMultipliers_ge_one: "x \<in> set (applicableMultipliers f m) \<Longrightarrow> 1 \<le> x"
  by (auto simp: applicableMultipliers_def multipliers_ge_one split: if_splits punctuation.splits)

lemma durationMultiplier_prod: "durationMultiplier f m = prod_list (applicableMultipliers f m)"
  by (simp add: durationMultiplier_def applicableMultipliers_def Let_def split: punctuation.splits)

lemma mathRound_ge: "of_int n \<le> x \<Longrightarrow> n \<le> mathRound x"
  by (simp add: mathRound_def le_floor_iff)

lemma calculateBaseDuration_ge_300: "300 \<le> calculateBaseDuration f m"
proof -
  have "1 \<le> durationMultiplier f m"
    unfolding durationMultiplier_prod by (rule prod_list_ge_one) (rule applicableMultipliers_ge_one)
  then have "of_int 300 \<le> BASE_MS * durationMultiplier f m" by (simp add: BASE_MS_def)
  then show ?thesis unfolding calculateBaseDuration_def by (rule mathRound_ge)
qed

lemma tokenize_baseDuration: "t \<in> set (tokenize text m) \<Longrightarrow> \<exists>f. baseDurationMs t = calculateBaseDuration f m"
  by (auto simp: tokenize_def tokenizeParagraph_def makeToken_def Let_def)

text \<open>
  C7. For every combination of flags and both modes the base duration is an integer that
  is at least 1: it is the reference duration 300 times the product of the multipliers
  that apply, rounded to the nearest integer, with a minimum of 1 (a minimum the code
  never needs, every multiplier being at least 1), and so is the base duration of every
  token that \<open>tokenize\<close> produces. The multipliers are exact rationals here; in double
  arithmetic the running product is at least 1 as well, rounding being monotone.
\<close>

theorem base_duration_positive:
  "calculateBaseDuration f m = baseDurationSpec f m \<and> 1 \<le> calculateBaseDuration f m \<and>
   (\<forall>t \<in> set (tokenize text m). 1 \<le> baseDurationMs t)"
proof (intro conjI ballI)
  have ge: "300 \<le> calculateBaseDuration f m" by (rule calculateBaseDuration_ge_300)
  show "calculateBaseDuration f m = baseDurationSpec f m"
    using ge by (simp add: baseDurationSpec_def calculateBaseDuration_def durationMultiplier_prod BASE_MS_def)
  show "1 \<le> calculateBaseDuration f m" using ge by simp
next
  fix t assume "t \<in> set (tokenize text m)"
  then obtain g where "baseDurationMs t = calculateBaseDuration g m"
    using tokenize_baseDuration by blast
  then show "1 \<le> baseDurationMs t" using calculateBaseDuration_ge_300 [of g m] by simp
qed

section \<open>Scaling to the current rate\<close>

lemma mathRound_eqI: "of_int n \<le> x + 1 / 2 \<Longrightarrow> x + 1 / 2 < of_int n + 1 \<Longrightarrow> mathRound x = n"
  unfolding mathRound_def by (rule floor_unique)

lemma mathRound_of_int: "mathRound (of_int n) = n"
  by (rule mathRound_eqI) simp_all

lemma mathRound_numeral: "mathRound (numeral k) = numeral k"
  using mathRound_of_int [of "numeral k"] by simp

lemma mathRound_mono: "x \<le> y \<Longrightarrow> mathRound x \<le> mathRound y"
  by (simp add: mathRound_def floor_mono)

text \<open>
  C4, as amended. For a fixed base duration that is not negative and rates
  \<open>0 < r1 < r2\<close>, the scaled duration at the lower rate is at least the one at the
  higher rate (not always strictly greater: rounding can make the two equal), where the
  scaled duration is \<open>round(base * 200 / rate)\<close>.
\<close>

theorem scaling_monotone:
  assumes "0 \<le> baseDurationMs t" and "0 < r1" and "r1 < r2"
  shows "getDisplayDuration t r2 \<le> getDisplayDuration t r1 \<and>
         getDisplayDuration t r1 = mathRound (of_int (baseDurationMs t) * 200 / r1)"
proof
  have "BASE_WPM / r2 \<le> BASE_WPM / r1"
    using assms by (simp add: BASE_WPM_def frac_le)
  then have "of_int (baseDurationMs t) * (BASE_WPM / r2) \<le> of_int (baseDurationMs t) * (BASE_WPM / r1)"
    using assms(1) by (intro mult_left_mono) simp_all
  then show "getDisplayDuration t r2 \<le> getDisplayDuration t r1"
    unfolding getDisplayDuration_def by (rule mathRound_mono)
  show "getDisplayDuration t r1 = mathRound (of_int (baseDurationMs t) * 200 / r1)"
    by (simp add: getDisplayDuration_def BASE_WPM_def)
qed

theorem scaling_monotone_witness:
  "getDisplayDuration (plainToken (str ''New'') 300) 400 \<le> getDisplayDuration (plainToken (str ''New'') 300) 100 \<and>
   getDisplayDuration (plainToken (str ''New'') 300) 100 = 600 \<and> getDisplayDuration (plainToken (str ''New'') 300) 400 = 150"
proof -
  have h: "0 \<le> baseDurationMs (plainToken (str ''New'') 300)" "(0::rat) < 100" "(100::rat) < 400"
    by (simp_all add: plainToken_def)
  have e: "getDisplayDuration (plainToken (str ''New'') 300) 400 = 150"
    by (simp add: getDisplayDuration_def plainToken_def BASE_WPM_def mathRound_numeral)
  have "mathRound (of_int (baseDurationMs (plainToken (str ''New'') 300)) * 200 / 100) = 600"
    by (simp add: plainToken_def mathRound_numeral)
  with scaling_monotone [OF h] e show ?thesis by simp
qed

text \<open>
  C4 as stated fails: a token of base duration 300 is shown for 30 ms at 1999 words per
  minute and for 30 ms at 2000.
\<close>

theorem scaling_strict_counterexample:
  "(0::rat) < 1999 \<and> (1999::rat) < 2000 \<and>
   getDisplayDuration (plainToken (str ''New'') 300) 1999 = 30 \<and>
   getDisplayDuration (plainToken (str ''New'') 300) 2000 = 30 \<and>
   \<not> (getDisplayDuration (plainToken (str ''New'') 300) 1999 > getDisplayDuration (plainToken (str ''New'') 300) 2000)"
proof -
  have a: "getDisplayDuration (plainToken (str ''New'') 300) 1999 = 30"
    unfolding getDisplayDuration_def BASE_WPM_def
    by (rule mathRound_eqI) (simp_all add: plainToken_def)
  have b: "getDisplayDuration (plainToken (str ''New'') 300) 2000 = 30"
    unfolding getDisplayDuration_def BASE_WPM_def
    by (rule mathRound_eqI) (simp_all add: plainToken_def)
  show ?thesis using a b by simp
qed

section \<open>Durations under rounded arithmetic\<close>

text \<open>
  What the two results above need of double arithmetic: the base duration is at least 1
  for every rounding that keeps values at or above 1 there (1 is a double), and the
  scaled duration falls as the rate rises for every monotone rounding.
\<close>

lemma calculateBaseDurationFl_id: "calculateBaseDurationFl (\<lambda>x. x) f m = calculateBaseDuration f m"
  by (simp add: calculateBaseDurationFl_def calculateBaseDuration_def durationMultiplierFl_def
      durationMultiplier_def roundConfig_def Let_def split: punctuation.splits)

lemma getDisplayDurationFl_id: "getDisplayDurationFl (\<lambda>x. x) t r = getDisplayDuration t r"
  by (simp add: getDisplayDurationFl_def getDisplayDuration_def)

lemma mult_ge_one: "(1::rat) \<le> a \<Longrightarrow> 1 \<le> b \<Longrightarrow> 1 \<le> a * b"
  using mult_mono [of 1 a 1 b] by simp

lemma durationMultiplierFl_ge_one:
  assumes fl: "\<And>x. 1 \<le> x \<Longrightarrow> 1 \<le> fl x"
  shows "1 \<le> durationMultiplierFl fl f m"
proof -
  let ?c = "roundConfig fl (TIMING_CONFIGS m)"
  have c: "1 \<le> longWordMultiplier ?c" "1 \<le> abbreviationMultiplier ?c"
    "1 \<le> numericMultiplier ?c" "1 \<le> minorPunctMultiplier ?c" "1 \<le> majorPunctMultiplier ?c"
    "1 \<le> terminalPunctMultiplier ?c" "1 \<le> paragraphEndMultiplier ?c"
    "1 \<le> paragraphStartMultiplier ?c"
    by (simp_all add: roundConfig_def fl multipliers_ge_one)
  have step: "1 \<le> a \<Longrightarrow> 1 \<le> b \<Longrightarrow> 1 \<le> fl (a * b)" for a b
    by (rule fl) (rule mult_ge_one)
  have ifstep: "1 \<le> a \<Longrightarrow> 1 \<le> k \<Longrightarrow> 1 \<le> (if b then fl (a * k) else a)" for a k b
    using step by simp
  have casestep: "1 \<le> a \<Longrightarrow>
      1 \<le> (case punct f of
               Minor \<Rightarrow> fl (a * minorPunctMultiplier ?c)
             | Major \<Rightarrow> fl (a * majorPunctMultiplier ?c)
             | Terminal \<Rightarrow> fl (a * terminalPunctMultiplier ?c)
             | PunctNone \<Rightarrow> a)" for a
    using step c by (simp split: punctuation.splits)
  show ?thesis unfolding durationMultiplierFl_def Let_def
    by (intro ifstep casestep c order_refl)
qed

lemma calculateBaseDurationFl_positive:
  assumes fl: "\<And>x. 1 \<le> x \<Longrightarrow> 1 \<le> fl x"
  shows "1 \<le> calculateBaseDurationFl fl f m"
proof -
  have "1 \<le> durationMultiplierFl fl f m" using fl by (rule durationMultiplierFl_ge_one)
  then have "1 \<le> BASE_MS * durationMultiplierFl fl f m"
    unfolding BASE_MS_def by (intro mult_ge_one) simp_all
  then have "of_int 1 \<le> fl (BASE_MS * durationMultiplierFl fl f m)" using fl by simp
  then show ?thesis unfolding calculateBaseDurationFl_def by (rule mathRound_ge)
qed

lemma getDisplayDurationFl_monotone:
  assumes fl: "\<And>x y. x \<le> y \<Longrightarrow> fl x \<le> fl y"
    and "0 \<le> baseDurationMs t" and "0 < r1" and "r1 < r2"
  shows "getDisplayDurationFl fl t r2 \<le> getDisplayDurationFl fl t r1"
proof -
  have "BASE_WPM / r2 \<le> BASE_WPM / r1"
    using assms(3,4) by (simp add: BASE_WPM_def frac_le)
  then have "fl (BASE_WPM / r2) \<le> fl (BASE_WPM / r1)" by (rule fl)
  then have "of_int (baseDurationMs t) * fl (BASE_WPM / r2) \<le>
             of_int (baseDurationMs t) * fl (BASE_WPM / r1)"
    using assms(2) by (intro mult_left_mono) simp_all
  then have "fl (of_int (baseDurationMs t) * fl (BASE_WPM / r2)) \<le>
             fl (of_int (baseDurationMs t) * fl (BASE_WPM / r1))" by (rule fl)
  then show ?thesis unfolding getDisplayDurationFl_def by (rule mathRound_mono)
qed

section \<open>Tokenizer: fields of a token, fixation index\<close>

lemma makeToken_word: "k < length ws \<Longrightarrow> word (makeToken m ws k) = ws ! k"
  by (simp add: makeToken_def Let_def)

lemma makeToken_punct: "punct (tflags (makeToken m ws k)) = classifyPunctuation (ws ! k)"
  by (simp add: makeToken_def createFlags_def Let_def)

lemma makeToken_start: "isParagraphStart (tflags (makeToken m ws k)) = (k = 0)"
  by (simp add: makeToken_def createFlags_def Let_def)

lemma makeToken_end: "isParagraphEnd (tflags (makeToken m ws k)) = (int k = int (length ws) - 1)"
  by (simp add: makeToken_def createFlags_def Let_def)

lemma makeToken_orp: "orpIndex (makeToken m ws k) = findORPInWord (ws ! k)"
  by (simp add: makeToken_def Let_def)

lemma classify_scenario:
  "classifyPunctuation (str ''Hello,'') = Minor"
  "classifyPunctuation (str ''world.'') = Terminal"
  "classifyPunctuation (str ''New'') = PunctNone"
  "classifyPunctuation (str ''paragraph'') = PunctNone"
  "classifyPunctuation (str ''here.'') = Terminal"
  "classifyPunctuation (str ''Second'') = PunctNone"
  "classifyPunctuation (str ''paragraph.'') = Terminal"
  by (simp_all add: classifyPunctuation_def endsWithRun_def str_def terminalChar_def majorChar_def minorChar_def)

lemma orpLoop_finds:
  "orp - ci < length (filter isAlnum cs) \<Longrightarrow> ci \<le> orp \<Longrightarrow>
   \<exists>j. orpLoop cs i ci orp = Some j \<and> i \<le> j \<and> j < i + length cs"
proof (induction cs arbitrary: i ci)
  case Nil
  then show ?case by simp
next
  case (Cons c cs)
  show ?case
  proof (cases "isAlnum c")
    case False
    with Cons.prems have "orp - ci < length (filter isAlnum cs)" by simp
    from Cons.IH [OF this Cons.prems(2), of "i + 1"] False show ?thesis by auto
  next
    case True
    show ?thesis
    proof (cases "ci = orp")
      case True
      with \<open>isAlnum c\<close> show ?thesis by simp
    next
      case False
      with Cons.prems True have "orp - (ci + 1) < length (filter isAlnum cs)" "ci + 1 \<le> orp"
        by auto
      from Cons.IH [OF this, of "i + 1"] True False show ?thesis by auto
    qed
  qed
qed

lemma calculateORP_less: "filter isAlnum w \<noteq> [] \<Longrightarrow> calculateORP w < length (filter isAlnum w)"
  by (cases "filter isAlnum w") (auto simp: calculateORP_def stripNonAlnum_def Let_def)

lemma findORPInWord_in_range:
  assumes "\<exists>c \<in> set w. isAlnum c"
  shows "findORPInWord w < length w"
proof -
  let ?lo = "length (takeWhile (\<lambda>c. \<not> isAlnum c) w)"
  let ?rest = "drop ?lo w"
  have rest: "?rest = dropWhile (\<lambda>c. \<not> isAlnum c) w" by (simp add: dropWhile_eq_drop)
  have "filter isAlnum (takeWhile (\<lambda>c. \<not> isAlnum c) w) = []"
    by (auto simp: filter_empty_conv dest: set_takeWhileD)
  then have "filter isAlnum (takeWhile (\<lambda>c. \<not> isAlnum c) w @ ?rest) = filter isAlnum ?rest"
    by (simp only: filter_append append_Nil)
  then have alnum: "filter isAlnum w = filter isAlnum ?rest"
    by (simp only: rest takeWhile_dropWhile_id)
  have ne: "filter isAlnum ?rest \<noteq> []"
    using assms unfolding alnum [symmetric] by (auto simp: filter_empty_conv)
  have "calculateORP (stripNonAlnum ?rest) < length (filter isAlnum ?rest)"
    using calculateORP_less [of "stripNonAlnum ?rest"] ne by (simp add: stripNonAlnum_def)
  then have "calculateORP (stripNonAlnum ?rest) - 0 < length (filter isAlnum ?rest)" by simp
  from orpLoop_finds [OF this, of ?lo] obtain j where
    j: "orpLoop ?rest ?lo 0 (calculateORP (stripNonAlnum ?rest)) = Some j" "j < ?lo + length ?rest"
    by auto
  have "?lo + length ?rest = length w" by (simp add: length_takeWhile_le)
  with j show ?thesis by (simp add: findORPInWord_def Let_def)
qed

lemma findORPInWord_no_alnum:
  assumes "\<forall>c \<in> set w. \<not> isAlnum c"
  shows "findORPInWord w = length w"
proof -
  have tw: "takeWhile (\<lambda>c. \<not> isAlnum c) w = w" using assms by (simp add: takeWhile_eq_all_conv)
  show ?thesis unfolding findORPInWord_def Let_def tw by simp
qed

section \<open>Tokenizer: concrete texts\<close>

lemma scenario_paragraphs:
  "splitIntoParagraphs (str ''Hello, world. New paragraph here.'' @ [10, 10] @ str ''Second paragraph.'') =
     [str ''Hello, world. New paragraph here.'', str ''Second paragraph.'']"
  by (simp add: splitIntoParagraphs_def str_def replaceCR_def trim_def isSpace_def blankTail_def)

lemma scenario_words_first:
  "splitIntoWords (str ''Hello, world. New paragraph here.'') =
     [str ''Hello,'', str ''world.'', str ''New'', str ''paragraph'', str ''here.'']"
  by (simp add: splitIntoWords_def str_def trim_def isSpace_def)

lemma scenario_words_second:
  "splitIntoWords (str ''Second paragraph.'') = [str ''Second'', str ''paragraph.'']"
  by (simp add: splitIntoWords_def str_def trim_def isSpace_def)

lemma scenario_tokens:
  "tokenize (str ''Hello, world. New paragraph here.'' @ [10, 10] @ str ''Second paragraph.'') Reading =
     map (makeToken Reading [str ''Hello,'', str ''world.'', str ''New'', str ''paragraph'', str ''here.'']) [0, 1, 2, 3, 4] @
     map (makeToken Reading [str ''Second'', str ''paragraph.'']) [0, 1]"
  unfolding tokenize_def scenario_paragraphs
  by (simp add: tokenizeParagraph_def scenario_words_first scenario_words_second upt_rec Let_def eval_nat_numeral)

lemma dash_paragraphs: "splitIntoParagraphs (str ''Wait -- what?'') = [str ''Wait -- what?'']"
  by (simp add: splitIntoParagraphs_def str_def replaceCR_def trim_def isSpace_def blankTail_def)

lemma dash_words: "splitIntoWords (str ''Wait -- what?'') = [str ''Wait'', str ''--'', str ''what?'']"
  by (simp add: splitIntoWords_def str_def trim_def isSpace_def)

lemma dash_tokens:
  "tokenize (str ''Wait -- what?'') Reading =
     map (makeToken Reading [str ''Wait'', str ''--'', str ''what?'']) [0, 1, 2]"
  unfolding tokenize_def dash_paragraphs
  by (simp add: tokenizeParagraph_def dash_words upt_rec Let_def eval_nat_numeral)

lemma orp_dash:
  "findORPInWord (str ''Wait'') = 1" "findORPInWord (str ''--'') = 2" "findORPInWord (str ''what?'') = 1"
  "length (str ''--'') = 2"
  by (simp_all add: findORPInWord_def str_def isAlnum_def calculateORP_def stripNonAlnum_def)

text \<open>
  C6. Tokenizing \<open>"Hello, world. New paragraph here.\n\nSecond paragraph."\<close> in reading
  mode gives two paragraphs and their seven words in order; \<open>"world."\<close> is classified
  terminal; \<open>"here."\<close>, the last word of the first paragraph, is a paragraph end;
  \<open>"Second"\<close>, the first word of the second paragraph, is a paragraph start.
\<close>

theorem scenario_two_paragraphs:
  "length (splitIntoParagraphs (str ''Hello, world. New paragraph here.'' @ [10, 10] @ str ''Second paragraph.'')) = 2 \<and>
   map word (tokenize (str ''Hello, world. New paragraph here.'' @ [10, 10] @ str ''Second paragraph.'') Reading) =
     [str ''Hello,'', str ''world.'', str ''New'', str ''paragraph'', str ''here.'',
      str ''Second'', str ''paragraph.''] \<and>
   map (\<lambda>t. punct (tflags t)) (tokenize (str ''Hello, world. New paragraph here.'' @ [10, 10] @ str ''Second paragraph.'') Reading) =
     [Minor, Terminal, PunctNone, PunctNone, Terminal, PunctNone, Terminal] \<and>
   map (\<lambda>t. isParagraphEnd (tflags t)) (tokenize (str ''Hello, world. New paragraph here.'' @ [10, 10] @ str ''Second paragraph.'') Reading) =
     [False, False, False, False, True, False, True] \<and>
   map (\<lambda>t. isParagraphStart (tflags t)) (tokenize (str ''Hello, world. New paragraph here.'' @ [10, 10] @ str ''Second paragraph.'') Reading) =
     [True, False, False, False, False, True, False]"
  unfolding scenario_tokens scenario_paragraphs
proof (intro conjI)
  show "length [str ''Hello, world. New paragraph here.'', str ''Second paragraph.''] = 2"
    by simp
qed (simp_all add: makeToken_word makeToken_punct makeToken_end makeToken_start
       classify_scenario)

text \<open>
  C1 fails on a word without a letter or digit: in \<open>"Wait -- what?"\<close> the token \<open>"--"\<close>
  gets the fixation index 2, which is its length and so the index of no character.
\<close>

theorem fixation_out_of_range:
  "map word (tokenize (str ''Wait -- what?'') Reading) =
     [str ''Wait'', str ''--'', str ''what?''] \<and>
   map orpIndex (tokenize (str ''Wait -- what?'') Reading) = [1, 2, 1] \<and>
   orpIndex (tokenize (str ''Wait -- what?'') Reading ! 1) =
     length (word (tokenize (str ''Wait -- what?'') Reading ! 1))"
  unfolding dash_tokens
  by (simp add: makeToken_orp makeToken_word orp_dash)

theorem base_duration_positive_witness:
  "tokenize (str ''Wait -- what?'') Reading ! 1 \<in> set (tokenize (str ''Wait -- what?'') Reading) \<and>
   1 \<le> baseDurationMs (tokenize (str ''Wait -- what?'') Reading ! 1) \<and>
   1 \<le> calculateBaseDuration (createFlags (str ''world.'') False False) Reading"
proof -
  have len: "length (tokenize (str ''Wait -- what?'') Reading) = 3"
    unfolding dash_tokens by simp
  have mem: "tokenize (str ''Wait -- what?'') Reading ! 1 \<in> set (tokenize (str ''Wait -- what?'') Reading)"
    by (rule nth_mem) (simp add: len)
  from base_duration_positive [of "createFlags (str ''world.'') False False" Reading
      "str ''Wait -- what?''"] mem
  show ?thesis by blast
qed

section \<open>Playback controller: the invariant\<close>

lemma emit_fields [simp]:
  "tokens (emit e s) = tokens s" "currentIndex (emit e s) = currentIndex s"
  "isPlaying (emit e s) = isPlaying s" "wpm (emit e s) = wpm s"
  "lastTimestamp (emit e s) = lastTimestamp s" "accumulatedTime (emit e s) = accumulatedTime s"
  "currentTokenDuration (emit e s) = currentTokenDuration s" "rafId (emit e s) = rafId s"
  "rafNext (emit e s) = rafNext s"
  "emitted (emit e s) = emitted s @ [(e, length (tokens s))]"
  by (simp_all add: emit_def)

lemma emitTick_fields [simp]:
  "tokens (emitTick s) = tokens s" "currentIndex (emitTick s) = currentIndex s"
  "isPlaying (emitTick s) = isPlaying s" "wpm (emitTick s) = wpm s"
  "lastTimestamp (emitTick s) = lastTimestamp s" "accumulatedTime (emitTick s) = accumulatedTime s"
  "currentTokenDuration (emitTick s) = currentTokenDuration s" "rafId (emitTick s) = rafId s"
  "rafNext (emitTick s) = rafNext s"
  by (simp_all add: emitTick_def split: option.splits)

lemma emitProgress_fields [simp]:
  "tokens (emitProgress s) = tokens s" "currentIndex (emitProgress s) = currentIndex s"
  "isPlaying (emitProgress s) = isPlaying s" "wpm (emitProgress s) = wpm s"
  "lastTimestamp (emitProgress s) = lastTimestamp s"
  "accumulatedTime (emitProgress s) = accumulatedTime s"
  "currentTokenDuration (emitProgress s) = currentTokenDuration s"
  "rafId (emitProgress s) = rafId s" "rafNext (emitProgress s) = rafNext s"
  by (simp_all add: emitProgress_def Let_def)

lemma emitStateChange_fields [simp]:
  "tokens (emitStateChange s) = tokens s" "currentIndex (emitStateChange s) = currentIndex s"
  "isPlaying (emitStateChange s) = isPlaying s" "wpm (emitStateChange s) = wpm s"
  "lastTimestamp (emitStateChange s) = lastTimestamp s"
  "accumulatedTime (emitStateChange s) = accumulatedTime s"
  "currentTokenDuration (emitStateChange s) = currentTokenDuration s"
  "rafId (emitStateChange s) = rafId s" "rafNext (emitStateChange s) = rafNext s"
  by (simp_all add: emitStateChange_def)

lemma requestAnimationFrame_fields [simp]:
  "tokens (requestAnimationFrame s) = tokens s"
  "currentIndex (requestAnimationFrame s) = currentIndex s"
  "isPlaying (requestAnimationFrame s) = isPlaying s" "wpm (requestAnimationFrame s) = wpm s"
  "lastTimestamp (requestAnimationFrame s) = lastTimestamp s"
  "accumulatedTime (requestAnimationFrame s) = accumulatedTime s"
  "currentTokenDuration (requestAnimationFrame s) = currentTokenDuration s"
  "rafId (requestAnimationFrame s) = Some (rafNext s)"
  "rafNext (requestAnimationFrame s) = rafNext s + 1"
  "emitted (requestAnimationFrame s) = emitted s"
  by (simp_all add: requestAnimationFrame_def)

lemma pause_fields [simp]:
  "tokens (pause s) = tokens s" "currentIndex (pause s) = currentIndex s"
  "isPlaying (pause s) = False" "wpm (pause s) = wpm s"
  "lastTimestamp (pause s) = None" "accumulatedTime (pause s) = accumulatedTime s"
  "currentTokenDuration (pause s) = currentTokenDuration s" "rafId (pause s) = None"
  "rafNext (pause s) = rafNext s"
  by (simp_all add: pause_def Let_def split: option.splits)

text \<open>What each emitting step needs for the trace to stay valid.\<close>

lemma valid_emit:
  "notificationsValid (emit e s) = (notificationsValid s \<and> positionValid (e, length (tokens s)))"
  by (simp add: notificationsValid_def)

lemma valid_emitStateChange:
  "wellFormed s \<Longrightarrow> notificationsValid s \<Longrightarrow> notificationsValid (emitStateChange s)"
  by (simp add: emitStateChange_def valid_emit positionValid_def getState_def wellFormed_def)

lemma valid_emitTick: "notificationsValid s \<Longrightarrow> notificationsValid (emitTick s)"
  by (auto simp: emitTick_def valid_emit positionValid_def tokenAt_def split: option.splits if_splits)

lemma valid_emitProgress: "notificationsValid s \<Longrightarrow> notificationsValid (emitProgress s)"
  by (simp add: emitProgress_def Let_def valid_emit positionValid_def)

lemma valid_requestAnimationFrame:
  "notificationsValid (requestAnimationFrame s) = notificationsValid s"
  by (simp add: notificationsValid_def)

lemma wellFormed_cong:
  "tokens s' = tokens s \<Longrightarrow> currentIndex s' = currentIndex s \<Longrightarrow> isPlaying s' = isPlaying s \<Longrightarrow>
   wellFormed s' = wellFormed s"
  by (simp add: wellFormed_def)

lemma wellFormed_emit [simp]:
  "wellFormed (emit e s) = wellFormed s" "wellFormed (emitTick s) = wellFormed s"
  "wellFormed (emitProgress s) = wellFormed s" "wellFormed (emitStateChange s) = wellFormed s"
  "wellFormed (requestAnimationFrame s) = wellFormed s"
  by (simp_all add: wellFormed_def)

lemma consistent_emitStateChange: "consistent s \<Longrightarrow> consistent (emitStateChange s)"
  by (simp add: consistent_def valid_emitStateChange)

lemma consistent_emitTick: "consistent s \<Longrightarrow> consistent (emitTick s)"
  by (simp add: consistent_def valid_emitTick)

lemma consistent_emitProgress: "consistent s \<Longrightarrow> consistent (emitProgress s)"
  by (simp add: consistent_def valid_emitProgress)

lemma consistent_requestAnimationFrame: "consistent s \<Longrightarrow> consistent (requestAnimationFrame s)"
  by (simp add: consistent_def valid_requestAnimationFrame)

lemma consistent_emit_complete: "consistent s \<Longrightarrow> consistent (emit OnComplete s)"
  by (simp add: consistent_def valid_emit positionValid_def)

text \<open>A change of fields that the invariant does not read.\<close>

lemma consistent_update:
  "consistent s \<Longrightarrow> tokens s' = tokens s \<Longrightarrow> currentIndex s' = currentIndex s \<Longrightarrow>
   (isPlaying s' \<longrightarrow> isPlaying s) \<Longrightarrow> emitted s' = emitted s \<Longrightarrow> consistent s'"
  by (auto simp: consistent_def wellFormed_def notificationsValid_def)

text \<open>A move of the position to a clamped index.\<close>

lemma consistent_move:
  "consistent s \<Longrightarrow> tokens s' = tokens s \<Longrightarrow>
   currentIndex s' = max 0 (min i (int (length (tokens s)) - 1)) \<Longrightarrow>
   (isPlaying s' \<longrightarrow> isPlaying s) \<Longrightarrow> emitted s' = emitted s \<Longrightarrow> consistent s'"
  by (auto simp: consistent_def wellFormed_def notificationsValid_def)

lemma consistent_pause: "consistent s \<Longrightarrow> consistent (pause s)"
proof -
  assume c: "consistent s"
  let ?s1 = "s\<lparr>isPlaying := False\<rparr>"
  let ?s2 = "case rafId ?s1 of Some h \<Rightarrow> ?s1\<lparr>rafId := None\<rparr> | None \<Rightarrow> ?s1"
  have "consistent (?s2\<lparr>lastTimestamp := None\<rparr>)"
    by (rule consistent_update [OF c]) (simp_all split: option.splits)
  then show ?thesis unfolding pause_def Let_def by (rule consistent_emitStateChange)
qed

lemma consistent_stop: "consistent s \<Longrightarrow> consistent (stop s)"
proof -
  assume "consistent s"
  then have "consistent (pause s)" by (rule consistent_pause)
  then have "consistent ((pause s)\<lparr>currentIndex := 0, accumulatedTime := 0\<rparr>)"
    by (auto simp: consistent_def wellFormed_def notificationsValid_def)
  then show ?thesis unfolding stop_def by (rule consistent_emitStateChange)
qed

lemma stop_not_playing [simp]: "isPlaying (stop s) = False"
  by (simp add: stop_def)

lemma consistent_load: "consistent s \<Longrightarrow> consistent (load ts i s)"
proof -
  assume "consistent s"
  then have c: "consistent (stop s)" by (rule consistent_stop)
  let ?s2 = "(stop s)\<lparr>tokens := ts\<rparr>\<lparr>currentIndex := max 0 (min i (int (length ts) - 1))\<rparr>"
  have "consistent ?s2"
    using c by (auto simp: consistent_def wellFormed_def notificationsValid_def)
  then show ?thesis unfolding load_def Let_def
    by (intro consistent_emitStateChange consistent_emitTick)
qed

lemma consistent_setWPM: "consistent s \<Longrightarrow> consistent (setWPM w s)"
proof -
  assume c: "consistent s"
  let ?s1 = "s\<lparr>wpm := max 50 (min 2000 w)\<rparr>"
  let ?s2 = "if isPlaying ?s1 then
               (case tokenAt (tokens ?s1) (currentIndex ?s1) of
                  Some t \<Rightarrow> ?s1\<lparr>currentTokenDuration := getDisplayDuration t (wpm ?s1)\<rparr>
                | None \<Rightarrow> ?s1)
             else ?s1"
  have "consistent ?s2"
    by (rule consistent_update [OF c]) (simp_all split: option.splits)
  then show ?thesis unfolding setWPM_def Let_def by (rule consistent_emitStateChange)
qed

lemma consistent_adjustWPM: "consistent s \<Longrightarrow> consistent (adjustWPM d s)"
  unfolding adjustWPM_def by (rule consistent_setWPM)

lemma consistent_setMode: "consistent s \<Longrightarrow> consistent (setMode m s)"
proof -
  assume c: "consistent s"
  have "consistent (s\<lparr>cmode := m\<rparr>)" by (rule consistent_update [OF c]) simp_all
  then show ?thesis unfolding setMode_def by (rule consistent_emitStateChange)
qed

lemma consistent_step: "consistent s \<Longrightarrow> consistent (step d s)"
proof -
  assume c: "consistent s"
  let ?s1 = "if isPlaying s then pause s else s"
  have c1: "consistent ?s1" using c by (simp add: consistent_pause)
  let ?s3 = "?s1\<lparr>currentIndex :=
      max 0 (min (currentIndex ?s1 + d) (int (length (tokens ?s1)) - 1))\<rparr>\<lparr>accumulatedTime := 0\<rparr>"
  have "consistent ?s3" by (rule consistent_move [OF c1]) simp_all
  then show ?thesis unfolding step_def Let_def
    by (intro consistent_emitStateChange consistent_emitProgress consistent_emitTick)
qed

lemma consistent_rewind: "consistent s \<Longrightarrow> consistent (rewind n s)"
  unfolding rewind_def by (rule consistent_step)

lemma tokenAt_Some: "0 \<le> i \<Longrightarrow> i < int (length ts) \<Longrightarrow> tokenAt ts i = Some (ts ! nat i)"
  by (simp add: tokenAt_def)

lemma play_consistent:
  assumes c: "consistent s"
  shows "\<exists>s'. play s = Inr s' \<and> consistent s'"
proof (cases "tokens s = []")
  case True
  then show ?thesis using c by (simp add: play_def)
next
  case False
  let ?s1 = "if currentIndex s \<ge> int (length (tokens s)) - 1 then s\<lparr>currentIndex := 0\<rparr> else s"
  let ?s2 = "?s1\<lparr>isPlaying := True, accumulatedTime := 0, lastTimestamp := None\<rparr>"
  have idx: "0 \<le> currentIndex ?s2" "currentIndex ?s2 < int (length (tokens ?s2))"
    using c False by (auto simp: consistent_def wellFormed_def)
  then have tk: "tokenAt (tokens ?s2) (currentIndex ?s2) = Some (tokens ?s2 ! nat (currentIndex ?s2))"
    by (rule tokenAt_Some)
  let ?t = "tokens ?s2 ! nat (currentIndex ?s2)"
  have "consistent (?s2\<lparr>currentTokenDuration := getDisplayDuration ?t (wpm ?s2)\<rparr>)"
    using c False by (auto simp: consistent_def wellFormed_def notificationsValid_def)
  then have "consistent (emitStateChange (requestAnimationFrame
      (?s2\<lparr>currentTokenDuration := getDisplayDuration ?t (wpm ?s2)\<rparr>)))"
    by (intro consistent_emitStateChange consistent_requestAnimationFrame)
  moreover have "play s = Inr (emitStateChange (requestAnimationFrame
      (?s2\<lparr>currentTokenDuration := getDisplayDuration ?t (wpm ?s2)\<rparr>)))"
    using False tk unfolding play_def Let_def by simp
  ultimately show ?thesis by simp
qed

lemma toggle_consistent: "consistent s \<Longrightarrow> \<exists>s'. toggle s = Inr s' \<and> consistent s'"
  by (simp add: toggle_def consistent_pause play_consistent)

lemma seek_consistent:
  assumes c: "consistent s"
  shows "\<exists>s'. seek i s = Inr s' \<and> consistent s'"
proof -
  let ?s1 = "if isPlaying s then pause s else s"
  have c1: "consistent ?s1" using c by (simp add: consistent_pause)
  let ?s3 = "?s1\<lparr>currentIndex := max 0 (min i (int (length (tokens ?s1)) - 1))\<rparr>\<lparr>accumulatedTime := 0\<rparr>"
  have "consistent ?s3" by (rule consistent_move [OF c1]) simp_all
  then have c4: "consistent (emitProgress (emitTick ?s3))"
    by (intro consistent_emitProgress consistent_emitTick)
  show ?thesis
  proof (cases "isPlaying s")
    case True
    then show ?thesis using play_consistent [OF c4] by (simp add: seek_def Let_def)
  next
    case False
    then show ?thesis using consistent_emitStateChange [OF c4] by (simp add: seek_def Let_def)
  qed
qed

lemma seekPercent_consistent: "consistent s \<Longrightarrow> \<exists>s'. seekPercent p s = Inr s' \<and> consistent s'"
  unfolding seekPercent_def by (rule seek_consistent)

lemma tick_consistent:
  assumes c: "consistent s"
  shows "\<exists>s'. tick ts s = Inr s' \<and> consistent s'"
proof (cases "isPlaying s")
  case False
  then show ?thesis using c by (simp add: tick_def)
next
  case True
  with c have ne: "tokens s \<noteq> []" and lo: "0 \<le> currentIndex s"
    and hi: "currentIndex s < int (length (tokens s))"
    by (auto simp: consistent_def wellFormed_def)
  let ?s1 = "s\<lparr>lastTimestamp := Some ts, accumulatedTime := accumulatedTime s + deltaTime ts s\<rparr>"
  have c1: "consistent ?s1" by (rule consistent_update [OF c]) simp_all
  show ?thesis
  proof (cases "accumulatedTime ?s1 \<ge> of_int (currentTokenDuration ?s1)")
    case False
    then have "tick ts s = Inr (requestAnimationFrame ?s1)"
      using True by (simp add: tick_def Let_def)
    then show ?thesis using consistent_requestAnimationFrame [OF c1] by simp
  next
    case due: True
    let ?s2 = "?s1\<lparr>accumulatedTime := accumulatedTime ?s1 - of_int (currentTokenDuration ?s1),
                    currentIndex := currentIndex ?s1 + 1\<rparr>"
    show ?thesis
    proof (cases "currentIndex ?s2 \<ge> int (length (tokens ?s2))")
      case True
      let ?s3 = "?s2\<lparr>currentIndex := int (length (tokens ?s2)) - 1\<rparr>"
      have "consistent ?s3"
        using c1 ne by (auto simp: consistent_def wellFormed_def notificationsValid_def)
      then have "consistent (emit OnComplete (pause ?s3))"
        by (intro consistent_emit_complete consistent_pause)
      moreover have "tick ts s = Inr (emit OnComplete (pause ?s3))"
        using \<open>isPlaying s\<close> due True by (simp add: tick_def Let_def)
      ultimately show ?thesis by simp
    next
      case False
      then have rng: "0 \<le> currentIndex ?s2" "currentIndex ?s2 < int (length (tokens ?s2))"
        using lo by simp_all
      then have tk: "tokenAt (tokens ?s2) (currentIndex ?s2) = Some (tokens ?s2 ! nat (currentIndex ?s2))"
        by (rule tokenAt_Some)
      let ?t = "tokens ?s2 ! nat (currentIndex ?s2)"
      let ?s3 = "?s2\<lparr>currentTokenDuration := getDisplayDuration ?t (wpm ?s2)\<rparr>"
      have "consistent ?s3"
        using c1 ne rng by (auto simp: consistent_def wellFormed_def notificationsValid_def)
      then have "consistent (requestAnimationFrame (emitProgress (emitTick ?s3)))"
        by (intro consistent_requestAnimationFrame consistent_emitProgress consistent_emitTick)
      moreover have "tick ts s = Inr (requestAnimationFrame (emitProgress (emitTick ?s3)))"
        using \<open>isPlaying s\<close> due False tk unfolding tick_def Let_def by simp
      ultimately show ?thesis by simp
    qed
  qed
qed

lemma consistent_handleVisibilityChange: "consistent s \<Longrightarrow> consistent (handleVisibilityChange h s)"
proof -
  assume c: "consistent s"
  have a: "consistent (s\<lparr>wasPlayingBeforeHidden := b\<rparr>)" for b
    by (rule consistent_update [OF c]) simp_all
  have b: "consistent (s\<lparr>lastTimestamp := None, accumulatedTime := 0\<rparr>)"
    by (rule consistent_update [OF c]) simp_all
  show ?thesis using a b consistent_pause [OF a]
    by (simp add: handleVisibilityChange_def Let_def)
qed

lemma consistent_handleFreeze: "consistent s \<Longrightarrow> consistent (handleFreeze s)"
proof -
  assume c: "consistent s"
  have "consistent (s\<lparr>wasPlayingBeforeHidden := isPlaying s\<rparr>)"
    by (rule consistent_update [OF c]) simp_all
  then show ?thesis unfolding handleFreeze_def by (rule consistent_pause)
qed

lemma consistent_handleResume: "consistent s \<Longrightarrow> consistent (handleResume s)"
  unfolding handleResume_def by (erule consistent_update) simp_all

lemma perform_consistent: "consistent s \<Longrightarrow> \<exists>s'. perform x s = Inr s' \<and> consistent s'"
proof (cases x)
  case (Load ts i)
  assume "consistent s" then show ?thesis using Load by (simp add: consistent_load)
next
  case (SetWPM w)
  assume "consistent s" then show ?thesis using SetWPM by (simp add: consistent_setWPM)
next
  case (AdjustWPM d)
  assume "consistent s" then show ?thesis using AdjustWPM by (simp add: consistent_adjustWPM)
next
  case (SetMode m)
  assume "consistent s" then show ?thesis using SetMode by (simp add: consistent_setMode)
next
  case Play
  assume "consistent s" then show ?thesis using Play by (simp add: play_consistent)
next
  case Pause
  assume "consistent s" then show ?thesis using Pause by (simp add: consistent_pause)
next
  case Stop
  assume "consistent s" then show ?thesis using Stop by (simp add: consistent_stop)
next
  case Toggle
  assume "consistent s" then show ?thesis using Toggle by (simp add: toggle_consistent)
next
  case (Step d)
  assume "consistent s" then show ?thesis using Step by (simp add: consistent_step)
next
  case (Seek i)
  assume "consistent s" then show ?thesis using Seek by (simp add: seek_consistent)
next
  case (SeekPercent p)
  assume "consistent s" then show ?thesis using SeekPercent by (simp add: seekPercent_consistent)
next
  case (Rewind n)
  assume "consistent s" then show ?thesis using Rewind by (simp add: consistent_rewind)
next
  case (Tick t)
  assume "consistent s" then show ?thesis using Tick by (simp add: tick_consistent)
next
  case (VisibilityChange h)
  assume "consistent s" then show ?thesis using VisibilityChange
    by (simp add: consistent_handleVisibilityChange)
next
  case Freeze
  assume "consistent s" then show ?thesis using Freeze by (simp add: consistent_handleFreeze)
next
  case Resume
  assume "consistent s" then show ?thesis using Resume by (simp add: consistent_handleResume)
next
  case Destroy
  assume "consistent s" then show ?thesis using Destroy
    by (simp add: destroy_def consistent_pause)
qed

lemma run_consistent: "consistent s \<Longrightarrow> \<exists>s'. run xs s = Inr s' \<and> consistent s'"
proof (induction xs arbitrary: s)
  case Nil
  then show ?case by simp
next
  case (Cons x xs)
  from perform_consistent [OF Cons.prems, of x] obtain s1 where
    s1: "perform x s = Inr s1" "consistent s1" by blast
  from Cons.IH [OF s1(2)] s1(1) show ?case by simp
qed

lemma consistent_newController: "consistent newController"
  by (simp add: consistent_def wellFormed_def notificationsValid_def newController_def)

lemma positionValid_unfold:
  "positionValid n \<Longrightarrow> eventPosition (fst n) = Some p \<Longrightarrow>
   0 \<le> p \<and> p \<le> max 0 (int (snd n) - 1) \<and> (snd n > 0 \<longrightarrow> p < int (snd n)) \<and> (snd n = 0 \<longrightarrow> p = 0)"
  by (auto simp: positionValid_def)

text \<open>
  C10. After every run of public operations, frame ticks and lifecycle signals on a new
  controller, no call having raised, the position satisfies
  \<open>0 \<le> currentIndex \<le> max(0, tokens.length - 1)\<close>; and every position that was
  passed to an observer (with a token, or in a state snapshot) was in that range for the
  sequence held at the time of the call: below \<open>tokens.length\<close> for a non-empty
  sequence, 0 for an empty one. Arguments are integers and rationals.
\<close>

theorem position_invariant:
  "\<exists>s. run xs newController = Inr s \<and>
       0 \<le> currentIndex s \<and> currentIndex s \<le> max 0 (int (length (tokens s)) - 1) \<and>
       (\<forall>n \<in> set (emitted s). \<forall>p. eventPosition (fst n) = Some p \<longrightarrow>
          0 \<le> p \<and> p \<le> max 0 (int (snd n) - 1) \<and>
          (snd n > 0 \<longrightarrow> p < int (snd n)) \<and> (snd n = 0 \<longrightarrow> p = 0))"
proof -
  from run_consistent [OF consistent_newController, of xs] obtain s where
    s: "run xs newController = Inr s" "consistent s" by blast
  have "0 \<le> currentIndex s \<and> currentIndex s \<le> max 0 (int (length (tokens s)) - 1)"
    using s(2) by (simp add: consistent_def wellFormed_def)
  moreover have "\<forall>n \<in> set (emitted s). positionValid n"
    using s(2) by (simp add: consistent_def notificationsValid_def list_all_iff)
  ultimately show ?thesis using s(1) positionValid_unfold by blast
qed

section \<open>Playback controller: what the operations do\<close>

lemma plainToken_base [simp]: "baseDurationMs (plainToken w d) = d"
  by (simp add: plainToken_def)

lemmas controller_defs = newController_def load_def stop_def pause_def emitStateChange_def
  emit_def getState_def emitTick_def emitProgress_def tokenAt_def setWPM_def play_def
  requestAnimationFrame_def tick_def deltaTime_def step_def seek_def getDisplayDuration_def
  BASE_WPM_def mathRound_numeral Let_def

lemma tick_at_most_one: "tick ts s = Inr s' \<Longrightarrow> currentIndex s' \<le> currentIndex s + 1"
  by (auto simp: tick_def Let_def split: if_splits option.splits)

lemma tick_paused: "\<not> isPlaying s \<Longrightarrow> tick ts s = Inr s"
  by (simp add: tick_def)

lemma deltaTime_fresh: "lastTimestamp s = None \<Longrightarrow> deltaTime ts s = 0"
  by (simp add: deltaTime_def)

lemma play_result:
  assumes "tokens s \<noteq> []" and "0 \<le> currentIndex s"
  shows "\<exists>s'. play s = Inr s' \<and>
      currentIndex s' = (if currentIndex s \<ge> int (length (tokens s)) - 1 then 0 else currentIndex s) \<and>
      accumulatedTime s' = 0 \<and> lastTimestamp s' = None \<and>
      tokenAt (tokens s) (currentIndex s') = Some (tokens s ! nat (currentIndex s')) \<and>
      currentTokenDuration s' = getDisplayDuration (tokens s ! nat (currentIndex s')) (wpm s) \<and>
      isPlaying s' \<and> rafId s' = Some (rafNext s) \<and> rafNext s' = rafNext s + 1 \<and>
      tokens s' = tokens s \<and> wpm s' = wpm s \<and>
      emitted s' = emitted s @
        [(OnStateChange \<lparr> psIsPlaying = True, psCurrentIndex = currentIndex s',
                          psWpm = wpm s, psMode = cmode s \<rparr>, length (tokens s))]"
  using assms
  by (auto simp: play_def Let_def tokenAt_def emitStateChange_def emit_def getState_def
      requestAnimationFrame_def)

lemma play_empty: "tokens s = [] \<Longrightarrow> play s = Inr s"
  by (simp add: play_def)

lemma tick_result:
  assumes "isPlaying s" and "0 \<le> currentIndex s" and "currentIndex s < int (length (tokens s))"
  shows "\<exists>s'. tick ts s = Inr s' \<and>
     (if accumulatedTime s + deltaTime ts s \<ge> of_int (currentTokenDuration s)
      then accumulatedTime s' =
             accumulatedTime s + deltaTime ts s - of_int (currentTokenDuration s) \<and>
           currentIndex s' = min (currentIndex s + 1) (int (length (tokens s)) - 1) \<and>
           isPlaying s' = (currentIndex s + 1 < int (length (tokens s)))
      else accumulatedTime s' = accumulatedTime s + deltaTime ts s \<and>
           currentIndex s' = currentIndex s \<and> isPlaying s') \<and>
     currentIndex s' \<le> currentIndex s + 1 \<and> tokens s' = tokens s"
  using assms by (auto simp: tick_def Let_def tokenAt_def)

lemma step_never_running: "\<not> isPlaying (step d s)"
  by (simp add: step_def Let_def)

lemma seek_paused_clamps:
  "\<not> isPlaying s \<Longrightarrow>
   \<exists>s'. seek i s = Inr s' \<and> \<not> isPlaying s' \<and>
        currentIndex s' = max 0 (min i (int (length (tokens s)) - 1))"
  by (simp add: seek_def Let_def)

lemma seek_running_resumes:
  "isPlaying s \<Longrightarrow> tokens s \<noteq> [] \<Longrightarrow> \<exists>s'. seek i s = Inr s' \<and> isPlaying s'"
proof -
  assume a: "isPlaying s" "tokens s \<noteq> []"
  let ?s4 = "emitProgress (emitTick ((pause s)\<lparr>currentIndex :=
       max 0 (min i (int (length (tokens (pause s))) - 1))\<rparr>\<lparr>accumulatedTime := 0\<rparr>))"
  have "tokens ?s4 \<noteq> []" "0 \<le> currentIndex ?s4" using a by simp_all
  from play_result [OF this] obtain s' where "play ?s4 = Inr s'" "isPlaying s'" by blast
  then show ?thesis using a by (simp add: seek_def Let_def)
qed

lemma hidden_pauses: "\<not> isPlaying (handleVisibilityChange True s)"
  by (simp add: handleVisibilityChange_def Let_def)

lemma visibility_fields [simp]:
  "tokens (handleVisibilityChange h s) = tokens s"
  "currentIndex (handleVisibilityChange h s) = currentIndex s"
  by (simp_all add: handleVisibilityChange_def Let_def)

lemma visible_clears:
  "lastTimestamp (handleVisibilityChange False s) = None"
  "accumulatedTime (handleVisibilityChange False s) = 0"
  "isPlaying (handleVisibilityChange False s) = isPlaying s"
  by (simp_all add: handleVisibilityChange_def)

lemma resume_clears:
  "lastTimestamp (handleResume s) = None" "accumulatedTime (handleResume s) = 0"
  "isPlaying (handleResume s) = isPlaying s" "tokens (handleResume s) = tokens s"
  "currentIndex (handleResume s) = currentIndex s"
  by (simp_all add: handleResume_def)

lemma freeze_fields:
  "isPlaying (handleFreeze s) = False" "tokens (handleFreeze s) = tokens s"
  "currentIndex (handleFreeze s) = currentIndex s"
  by (simp_all add: handleFreeze_def)

text \<open>After a clock reset on a paused controller: a stale tick, then play and its first tick.\<close>

lemma first_tick_after_reset:
  assumes np: "\<not> isPlaying v" and lo: "0 \<le> currentIndex v" and fresh: "lastTimestamp v = None"
  shows "tick ts v = Inr v \<and>
         (\<exists>p q. play v = Inr p \<and> deltaTime ts p = 0 \<and> tick ts p = Inr q \<and>
                currentIndex q \<le> currentIndex p + 1)"
proof
  show "tick ts v = Inr v" using np by (rule tick_paused)
  show "\<exists>p q. play v = Inr p \<and> deltaTime ts p = 0 \<and> tick ts p = Inr q \<and>
                currentIndex q \<le> currentIndex p + 1"
  proof (cases "tokens v = []")
    case True
    have "play v = Inr v" using True by (rule play_empty)
    moreover have "deltaTime ts v = 0" using fresh by (rule deltaTime_fresh)
    moreover have "tick ts v = Inr v" using np by (rule tick_paused)
    ultimately show ?thesis by force
  next
    case False
    from play_result [OF False lo] obtain p where
      p: "play v = Inr p" "lastTimestamp p = None" "isPlaying p" "tokens p = tokens v"
         "currentIndex p = (if currentIndex v \<ge> int (length (tokens v)) - 1 then 0 else currentIndex v)"
      by blast
    have rng: "0 \<le> currentIndex p" "currentIndex p < int (length (tokens p))"
      using p(4,5) lo False by (auto split: if_splits)
    from tick_result [OF p(3) rng, of ts] obtain q where
      "tick ts p = Inr q" "currentIndex q \<le> currentIndex p + 1" by blast
    with p(1) deltaTime_fresh [OF p(2), of ts] show ?thesis by blast
  qed
qed

section \<open>Playback controller: the claims\<close>

text \<open>
  C9. \<open>play()\<close> on an empty sequence changes nothing. On a non-empty sequence it first
  rewinds the position to 0 if it is at or past the last index, clears the accumulator
  and the last timestamp, sets the current token's scaled duration, is Running, and has
  requested a frame; it reports the new state to the observer.
\<close>

theorem play_behaviour:
  "(tokens s = [] \<longrightarrow> play s = Inr s) \<and>
   (tokens s \<noteq> [] \<and> 0 \<le> currentIndex s \<longrightarrow>
     (\<exists>s'. play s = Inr s' \<and>
        currentIndex s' =
          (if currentIndex s \<ge> int (length (tokens s)) - 1 then 0 else currentIndex s) \<and>
        accumulatedTime s' = 0 \<and> lastTimestamp s' = None \<and>
        tokenAt (tokens s) (currentIndex s') = Some (tokens s ! nat (currentIndex s')) \<and>
        currentTokenDuration s' = getDisplayDuration (tokens s ! nat (currentIndex s')) (wpm s) \<and>
        isPlaying s' \<and> rafId s' = Some (rafNext s) \<and> rafNext s' = rafNext s + 1 \<and>
        tokens s' = tokens s \<and> wpm s' = wpm s \<and>
        emitted s' = emitted s @
          [(OnStateChange \<lparr> psIsPlaying = True, psCurrentIndex = currentIndex s',
                            psWpm = wpm s, psMode = cmode s \<rparr>, length (tokens s))]))"
  using play_empty [of s] play_result [of s] by blast

theorem play_behaviour_witness:
  "play newController = Inr newController \<and>
   (\<exists>s'. play (newController\<lparr>tokens := replicate 3 (plainToken (str ''New'') 300),
                              currentIndex := 2\<rparr>) = Inr s' \<and>
         currentIndex s' = 0 \<and> isPlaying s' \<and> currentTokenDuration s' = 200 \<and>
         accumulatedTime s' = 0 \<and> lastTimestamp s' = None \<and> rafId s' = Some 1)"
proof
  have "tokens newController = []" by (simp add: newController_def)
  with play_behaviour [of newController] show "play newController = Inr newController"
    by blast
next
  let ?S = "newController\<lparr>tokens := replicate 3 (plainToken (str ''New'') 300),
                          currentIndex := 2\<rparr>"
  have h: "tokens ?S \<noteq> [] \<and> 0 \<le> currentIndex ?S" by simp
  have d: "getDisplayDuration (plainToken (str ''New'') 300) 300 = 200"
    by (simp add: getDisplayDuration_def BASE_WPM_def mathRound_numeral)
  from play_behaviour [of ?S] h obtain s' where
    "play ?S = Inr s'"
    "currentIndex s' = (if currentIndex ?S \<ge> int (length (tokens ?S)) - 1 then 0 else currentIndex ?S)"
    "accumulatedTime s' = 0" "lastTimestamp s' = None"
    "currentTokenDuration s' = getDisplayDuration (tokens ?S ! nat (currentIndex s')) (wpm ?S)"
    "isPlaying s'" "rafId s' = Some (rafNext ?S)"
    by blast
  then show "\<exists>s'. play ?S = Inr s' \<and> currentIndex s' = 0 \<and> isPlaying s' \<and>
      currentTokenDuration s' = 200 \<and> accumulatedTime s' = 0 \<and> lastTimestamp s' = None \<and>
      rafId s' = Some 1"
    using d by (simp add: newController_def)
qed

text \<open>
  C2, as amended. On a frame tick while Running, after the tick's elapsed time has been
  added to the accumulator, the scheduler checks once whether the accumulator is at least
  the current token's scaled duration. If so it subtracts that duration (it does not
  reset to zero, so the remainder is carried forward) and advances the position by one,
  clamped at the end of the sequence, where playback stops. A single tick advances the
  position by at most one token, however many token durations its elapsed time covers.
\<close>

theorem tick_advances_once:
  assumes "isPlaying s" and "0 \<le> currentIndex s" and "currentIndex s < int (length (tokens s))"
  shows "\<exists>s'. tick ts s = Inr s' \<and>
     (if accumulatedTime s + deltaTime ts s \<ge> of_int (currentTokenDuration s)
      then accumulatedTime s' =
             accumulatedTime s + deltaTime ts s - of_int (currentTokenDuration s) \<and>
           currentIndex s' = min (currentIndex s + 1) (int (length (tokens s)) - 1) \<and>
           isPlaying s' = (currentIndex s + 1 < int (length (tokens s)))
      else accumulatedTime s' = accumulatedTime s + deltaTime ts s \<and>
           currentIndex s' = currentIndex s \<and> isPlaying s') \<and>
     currentIndex s' \<le> currentIndex s + 1"
  using tick_result [OF assms, of ts] by blast

theorem tick_advances_once_witness:
  "\<exists>s'. tick 1000 (newController\<lparr>tokens := replicate 4 (plainToken (str ''New'') 300),
                       isPlaying := True, wpm := 200, lastTimestamp := Some 0,
                       currentTokenDuration := 300\<rparr>) = Inr s' \<and>
        accumulatedTime s' = 700 \<and> currentIndex s' = 1 \<and> isPlaying s'"
proof -
  let ?S = "newController\<lparr>tokens := replicate 4 (plainToken (str ''New'') 300),
                       isPlaying := True, wpm := 200, lastTimestamp := Some 0,
                       currentTokenDuration := 300\<rparr>"
  have h: "isPlaying ?S" "0 \<le> currentIndex ?S" "currentIndex ?S < int (length (tokens ?S))"
    by (simp_all add: newController_def)
  have v: "accumulatedTime ?S + deltaTime 1000 ?S = 1000" "currentTokenDuration ?S = 300"
    "currentIndex ?S = 0" "length (tokens ?S) = 4"
    by (simp_all add: newController_def deltaTime_def)
  from tick_advances_once [OF h, of 1000]
  have "\<exists>s'. tick 1000 ?S = Inr s' \<and> accumulatedTime s' = 700 \<and> currentIndex s' = 1 \<and>
      isPlaying s' \<and> currentIndex s' \<le> 1"
    unfolding v by simp
  then show ?thesis by blast
qed

text \<open>
  C2 as stated fails: with four tokens of scaled duration 300 and the first tick at time
  0, a tick at time 1000 covers three whole token durations, yet the position moves from
  0 to 1, not to 3, and 700 stays in the accumulator.
\<close>

theorem tick_while_loop_counterexample:
  "map_sum id currentIndex (run [Load (replicate 4 (plainToken (str ''New'') 300)) 0,
       SetWPM 200, Play, Tick 0] newController) = Inr 0 \<and>
   map_sum id currentTokenDuration (run [Load (replicate 4 (plainToken (str ''New'') 300)) 0,
       SetWPM 200, Play, Tick 0] newController) = Inr 300 \<and>
   map_sum id accumulatedTime (run [Load (replicate 4 (plainToken (str ''New'') 300)) 0,
       SetWPM 200, Play, Tick 0] newController) = Inr 0 \<and>
   map_sum id currentIndex (run [Load (replicate 4 (plainToken (str ''New'') 300)) 0,
       SetWPM 200, Play, Tick 0, Tick 1000] newController) = Inr 1 \<and>
   map_sum id accumulatedTime (run [Load (replicate 4 (plainToken (str ''New'') 300)) 0,
       SetWPM 200, Play, Tick 0, Tick 1000] newController) = Inr 700"
  by (simp add: controller_defs)

text \<open>
  C3 fails on the code: \<open>step\<close> called while Running leaves the scheduler paused (it
  moves the position and reports it, but never calls \<open>play\<close> again), whereas \<open>seek\<close> from
  the same state resumes.
\<close>

theorem step_while_running_stays_paused:
  "map_sum id isPlaying (run [Load (replicate 4 (plainToken (str ''New'') 300)) 0, Play]
       newController) = Inr True \<and>
   map_sum id isPlaying (run [Load (replicate 4 (plainToken (str ''New'') 300)) 0, Play, Step 1]
       newController) = Inr False \<and>
   map_sum id currentIndex (run [Load (replicate 4 (plainToken (str ''New'') 300)) 0, Play, Step 1]
       newController) = Inr 1 \<and>
   map_sum id isPlaying (run [Load (replicate 4 (plainToken (str ''New'') 300)) 0, Play, Seek 1]
       newController) = Inr True"
  by (simp add: controller_defs)

text \<open>
  C8 fails on the code while Running: on a 100-token sequence that is playing,
  \<open>seek(9999)\<close> clamps to 99 and then resumes through \<open>play\<close>, whose restart-at-end check
  rewinds to 0. From a paused controller \<open>seek(9999)\<close> gives 99 and \<open>seek(-5)\<close> gives 0.
\<close>

theorem seek_while_running_rewinds:
  "map_sum id currentIndex (run [Load (replicate 100 (plainToken (str ''New'') 300)) 0, Play,
       Seek 9999] newController) = Inr 0 \<and>
   map_sum id currentIndex (run [Load (replicate 100 (plainToken (str ''New'') 300)) 0,
       Seek 9999] newController) = Inr 99 \<and>
   map_sum id currentIndex (run [Load (replicate 100 (plainToken (str ''New'') 300)) 0,
       Seek (- 5)] newController) = Inr 0"
  by (simp add: controller_defs)

text \<open>
  C5. A hidden-then-visible cycle, and a freeze-then-resume cycle, leave the controller
  paused at the same position with the last-frame timestamp cleared and the pending
  elapsed time zero. A tick delivered after the cycle finds the controller paused and
  changes nothing; once playback is resumed with \<open>play\<close>, the first tick counts no elapsed
  time at all, whatever its timestamp, and advances the position by at most one token.
\<close>

theorem suspension_safety:
  assumes "0 \<le> currentIndex s"
  shows
    "lastTimestamp (handleVisibilityChange False (handleVisibilityChange True s)) = None \<and>
     accumulatedTime (handleVisibilityChange False (handleVisibilityChange True s)) = 0 \<and>
     \<not> isPlaying (handleVisibilityChange False (handleVisibilityChange True s)) \<and>
     currentIndex (handleVisibilityChange False (handleVisibilityChange True s)) = currentIndex s \<and>
     tick ts (handleVisibilityChange False (handleVisibilityChange True s)) =
       Inr (handleVisibilityChange False (handleVisibilityChange True s)) \<and>
     (\<exists>p q. play (handleVisibilityChange False (handleVisibilityChange True s)) = Inr p \<and>
            deltaTime ts p = 0 \<and> tick ts p = Inr q \<and> currentIndex q \<le> currentIndex p + 1) \<and>
     lastTimestamp (handleResume (handleFreeze s)) = None \<and>
     accumulatedTime (handleResume (handleFreeze s)) = 0 \<and>
     \<not> isPlaying (handleResume (handleFreeze s)) \<and>
     currentIndex (handleResume (handleFreeze s)) = currentIndex s \<and>
     tick ts (handleResume (handleFreeze s)) = Inr (handleResume (handleFreeze s)) \<and>
     (\<exists>p q. play (handleResume (handleFreeze s)) = Inr p \<and>
            deltaTime ts p = 0 \<and> tick ts p = Inr q \<and> currentIndex q \<le> currentIndex p + 1)"
proof -
  let ?v = "handleVisibilityChange False (handleVisibilityChange True s)"
  let ?r = "handleResume (handleFreeze s)"
  have v: "\<not> isPlaying ?v" "0 \<le> currentIndex ?v" "lastTimestamp ?v = None"
    "accumulatedTime ?v = 0" "currentIndex ?v = currentIndex s"
    using assms by (simp_all add: visible_clears hidden_pauses)
  have r: "\<not> isPlaying ?r" "0 \<le> currentIndex ?r" "lastTimestamp ?r = None"
    "accumulatedTime ?r = 0" "currentIndex ?r = currentIndex s"
    using assms by (simp_all add: resume_clears freeze_fields)
  from first_tick_after_reset [OF v(1,2,3), of ts] first_tick_after_reset [OF r(1,2,3), of ts]
    v(3,4,1,5) r(3,4,1,5)
  show ?thesis by (intro conjI) blast+
qed

theorem suspension_safety_witness:
  "lastTimestamp (handleVisibilityChange False (handleVisibilityChange True
      (newController\<lparr>tokens := replicate 3 (plainToken (str ''New'') 300), currentIndex := 1,
         isPlaying := True, lastTimestamp := Some 0, accumulatedTime := 100\<rparr>))) = None \<and>
   (\<exists>p q. play (handleVisibilityChange False (handleVisibilityChange True
      (newController\<lparr>tokens := replicate 3 (plainToken (str ''New'') 300), currentIndex := 1,
         isPlaying := True, lastTimestamp := Some 0, accumulatedTime := 100\<rparr>))) = Inr p \<and>
      deltaTime 9999999 p = 0 \<and> tick 9999999 p = Inr q \<and> currentIndex q \<le> currentIndex p + 1)"
proof -
  have h: "0 \<le> currentIndex (newController\<lparr>tokens := replicate 3 (plainToken (str ''New'') 300),
      currentIndex := 1, isPlaying := True, lastTimestamp := Some 0, accumulatedTime := 100\<rparr>)"
    by simp
  from suspension_safety [OF h, of 9999999] show ?thesis by blast
qed

theorem position_invariant_witness:
  "\<exists>s. run [Load [plainToken (str ''New'') 300] 7, Play, Tick 0, Tick 1000] newController = Inr s \<and>
       currentIndex s = 0 \<and>
       (OnTick (plainToken (str ''New'') 300) 0, 1) \<in> set (emitted s) \<and>
       eventPosition (OnTick (plainToken (str ''New'') 300) 0) = Some 0 \<and>
       (0::int) \<le> 0 \<and> (0::int) < int 1"
proof -
  let ?ops = "[Load [plainToken (str ''New'') 300] 7, Play, Tick 0, Tick 1000]"
  let ?n = "(OnTick (plainToken (str ''New'') 300) 0, 1::nat)"
  from position_invariant [of ?ops] obtain s where
    s: "run ?ops newController = Inr s" "0 \<le> currentIndex s"
       "currentIndex s \<le> max 0 (int (length (tokens s)) - 1)"
    and q: "\<forall>n \<in> set (emitted s). \<forall>p. eventPosition (fst n) = Some p \<longrightarrow>
          0 \<le> p \<and> p \<le> max 0 (int (snd n) - 1) \<and>
          (snd n > 0 \<longrightarrow> p < int (snd n)) \<and> (snd n = 0 \<longrightarrow> p = 0)"
    by blast
  have t: "map_sum id tokens (run ?ops newController) = Inr [plainToken (str ''New'') 300]"
    by (simp add: controller_defs)
  have e: "map_sum id (\<lambda>s. ?n \<in> set (emitted s)) (run ?ops newController) = Inr True"
    by (simp add: controller_defs)
  from s t e have idx: "currentIndex s = 0" and mem: "?n \<in> set (emitted s)"
    by simp_all
  have pos: "eventPosition (fst ?n) = Some 0" by simp
  from q mem pos have "(0::int) \<le> 0 \<and> (0::int) < int (snd ?n)" by fastforce
  with s(1) idx mem show ?thesis by simp
qed

end
